theory Spec2Isabelle
  imports Main "HOL-Library.Word" "HOL-Library.AList"
begin

section \<open>JavaScript strings\<close>

text \<open>
  A JavaScript string is a sequence of UTF-16 code units: \<open>s.length\<close> counts code
  units and \<open>s[i]\<close> is the one-unit string at index \<open>i\<close>, while \<open>for (let char of s)\<close>
  walks the string by code points, so that a leading surrogate followed by a trailing
  surrogate is handed out as one two-unit string.
\<close>

type_synonym cu = "16 word"
type_synonym jsstring = "cu list"

definition js :: "string \<Rightarrow> jsstring" where
  \<comment> \<open>an ASCII literal as a JavaScript string\<close>
  "js s = map (\<lambda>c. of_char c) s"

definition isLeadingSurrogate :: "cu \<Rightarrow> bool" where
  "isLeadingSurrogate u = (0xD800 \<le> u \<and> u \<le> 0xDBFF)"

definition isTrailingSurrogate :: "cu \<Rightarrow> bool" where
  "isTrailingSurrogate u = (0xDC00 \<le> u \<and> u \<le> 0xDFFF)"

fun codePoints :: "jsstring \<Rightarrow> jsstring list" where
  \<comment> \<open>the values \<open>for (let char of s)\<close> binds \<open>char\<close> to, in order\<close>
  "codePoints [] = []"
| "codePoints [u] = [[u]]"
| "codePoints (u # v # r) =
     (if isLeadingSurrogate u \<and> isTrailingSurrogate v then [u, v] # codePoints r
      else [u] # codePoints (v # r))"

section \<open>Emitted events\<close>

text \<open>
  What a handler sends: \<open>socket.emit(event, payload)\<close> reaches the socket itself,
  \<open>io.to(id).emit(event, payload)\<close> the room named \<open>id\<close>, whose only member is the socket
  with that id (no handler joins another room). A payload is a string or an object literal
  with its fields in the order written.
\<close>

datatype jsval = Str jsstring | Obj "(string \<times> jsval) list"

datatype emission = Emit jsstring string jsval

section \<open>index.js: the trie\<close>

text \<open>
  \<open>class TrieNode\<close>: \<open>children\<close> (an object used as a dictionary from one-character strings
  to nodes, here an association list in insertion order), \<open>isEndOfWord\<close> and \<open>socketId\<close>
  (\<open>null\<close> is \<open>None\<close>). Nodes are created by \<open>new TrieNode()\<close> and hung under one parent
  only, so the structure is a tree and in-place mutation is a rebuilt value.
  A \<open>Trie\<close> object is its \<open>root\<close> node.
\<close>

datatype trie = TrieNode "(jsstring \<times> trie) list" bool "jsstring option"

definition new_TrieNode :: trie where
  "new_TrieNode = TrieNode [] False None"

definition new_Trie :: trie where
  "new_Trie = new_TrieNode"

fun insert_loop :: "jsstring list \<Rightarrow> jsstring \<Rightarrow> trie \<Rightarrow> trie" where
  \<comment> \<open>the \<open>for\<close> loop of \<open>insert\<close> over the remaining characters, then the two assignments\<close>
  "insert_loop [] sid (TrieNode cs e s) = TrieNode cs True (Some sid)"
| "insert_loop (c # r) sid (TrieNode cs e s) =
     (let child = (case map_of cs c of None \<Rightarrow> new_TrieNode | Some n \<Rightarrow> n)
      in TrieNode (AList.update c (insert_loop r sid child) cs) e s)"

definition Trie_insert :: "trie \<Rightarrow> jsstring \<Rightarrow> jsstring \<Rightarrow> trie" where
  "Trie_insert t email sid = insert_loop (codePoints email) sid t"

fun search_loop :: "jsstring list \<Rightarrow> trie \<Rightarrow> jsstring option" where
  "search_loop [] (TrieNode cs e s) = (if e then s else None)"
| "search_loop (c # r) (TrieNode cs e s) =
     (case map_of cs c of None \<Rightarrow> None | Some child \<Rightarrow> search_loop r child)"

definition Trie_search :: "trie \<Rightarrow> jsstring \<Rightarrow> jsstring option" where
  "Trie_search t email = search_loop (codePoints email) t"

fun removeHelper :: "jsstring \<Rightarrow> trie \<Rightarrow> bool \<times> trie" where
  \<comment> \<open>\<open>removeHelper(node, depth)\<close> on the code units \<open>email[depth], email[depth + 1], ...\<close>
      still to walk; the result is the returned flag and the node as mutated. The branch
      \<open>None\<close> is the call on a missing child, \<open>if (!node) return false\<close>.\<close>
  "removeHelper [] (TrieNode cs e s) =
     (if \<not> e then (False, TrieNode cs e s)
      else (cs = [], TrieNode cs False None))"
| "removeHelper (u # us) (TrieNode cs e s) =
     (case map_of cs [u] of
        None \<Rightarrow> (False, TrieNode cs e s)
      | Some child \<Rightarrow>
          (let (r, child') = removeHelper us child in
           if \<not> r then (False, TrieNode (AList.update [u] child' cs) e s)
           else (let cs' = AList.delete [u] cs in (\<not> e \<and> cs' = [], TrieNode cs' e s))))"

definition Trie_remove :: "trie \<Rightarrow> jsstring \<Rightarrow> trie" where
  "Trie_remove t email = snd (removeHelper email t)"

section \<open>index.js: the socket handlers\<close>

text \<open>
  The module state: \<open>trie\<close> and the \<open>Map\<close> \<open>emailToSocket\<close>, an association list in
  insertion order (\<open>set\<close> keeps the place of a key that is there and appends a new one;
  the \<open>disconnect\<close> handler walks the entries in that order). Payloads are strings.
\<close>

record trie_server =
  trie :: trie
  emailToSocket :: "(jsstring \<times> jsstring) list"

definition trie_init :: trie_server where
  "trie_init = \<lparr>trie = new_Trie, emailToSocket = []\<rparr>"

definition register :: "trie_server \<Rightarrow> jsstring \<Rightarrow> jsstring \<Rightarrow> trie_server" where
  "register st sock email =
     \<lparr>trie = Trie_insert (trie st) email sock,
      emailToSocket = AList.update email sock (emailToSocket st)\<rparr>"

definition not_found :: "jsstring \<Rightarrow> jsval" where
  \<comment> \<open>the template literal of line 93; its first character is U+274C\<close>
  "not_found toEmail = Str (0x274C # js '' User '' @ toEmail @ js '' not found or offline'')"

definition send_message_trie ::
  "trie_server \<Rightarrow> jsstring \<Rightarrow> jsstring \<Rightarrow> jsstring \<Rightarrow> emission list" where
  \<comment> \<open>\<open>if (targetSocketId)\<close>: \<open>null\<close> and the empty string are falsy\<close>
  "send_message_trie st sock toEmail message =
     (case Trie_search (trie st) toEmail of
        None \<Rightarrow> [Emit sock ''error_message'' (not_found toEmail)]
      | Some targetSocketId \<Rightarrow>
          if targetSocketId = [] then [Emit sock ''error_message'' (not_found toEmail)]
          else [Emit targetSocketId ''receive_message''
                  (Obj [(''from'', Str sock), (''message'', Str message)])])"

definition disconnect_trie :: "trie_server \<Rightarrow> jsstring \<Rightarrow> trie_server" where
  \<comment> \<open>the loop stops (\<open>break\<close>) at the first entry whose id is the socket's\<close>
  "disconnect_trie st sock =
     (case find (\<lambda>(email, sid). sid = sock) (emailToSocket st) of
        None \<Rightarrow> st
      | Some (email, sid) \<Rightarrow>
          \<lparr>trie = Trie_remove (trie st) email,
           emailToSocket = AList.delete email (emailToSocket st)\<rparr>)"

datatype trie_event =
    EvRegister jsstring jsstring
  | EvSend jsstring jsstring jsstring
  | EvDisconnect jsstring

fun trie_step :: "trie_server \<Rightarrow> trie_event \<Rightarrow> trie_server" where
  "trie_step st (EvRegister sock email) = register st sock email"
| "trie_step st (EvSend sock toEmail message) = st"
| "trie_step st (EvDisconnect sock) = disconnect_trie st sock"

definition trie_run :: "trie_event list \<Rightarrow> trie_server" where
  "trie_run evs = foldl trie_step trie_init evs"

section \<open>The authenticated server (src/unnamed/part\_000)\<close>

text \<open>
  The token's payload as the handler reads it (\<open>decoded.id\<close>, \<open>decoded.email\<close>,
  \<open>decoded.role\<close>), the value kept for an email in \<open>connectedUsers\<close>, and the two
  Mongoose documents (their timestamps left out). \<open>_id\<close> is \<open>c_id\<close> and \<open>m_id\<close>.
\<close>

record claims =
  id' :: jsstring
  email :: jsstring
  role :: jsstring

record presence =
  socketId :: jsstring
  userId :: jsstring

record conversation =
  c_id :: nat
  participants :: "jsstring list"
  lastMessage :: "nat option"

record message =
  m_id :: nat
  conversation :: nat
  sender :: jsstring
  content :: jsstring

text \<open>
  The state the handlers share: \<open>socket.user\<close> of every socket (by socket id; \<open>None\<close> is
  \<open>undefined\<close>), the \<open>Map\<close> \<open>connectedUsers\<close>, and the two collections of the database in
  the order the documents were stored.
\<close>

record chat_server =
  user :: "jsstring \<rightharpoonup> claims"
  connectedUsers :: "jsstring \<rightharpoonup> presence"
  conversations :: "conversation list"
  messages :: "message list"

definition chat_init :: chat_server where
  "chat_init = \<lparr>user = Map.empty, connectedUsers = Map.empty, conversations = [], messages = []\<rparr>"

text \<open>
  The database calls of \<open>send_message\<close>. Any of them may reject; which of them do, in one
  run of the handler, is an input of the model (a list of the failing operations), and
  covers a lost connection as well as a document the schema refuses. The promise of the
  handler resolves, rejects with the failure of a database call, or rejects with a
  \<open>TypeError\<close> (\<open>Threw\<close>).
\<close>

datatype db_op = FindOne | CreateConversation | CreateMessage | SaveConversation

datatype outcome = Resolved | Rejected db_op | Threw

definition findOne_all :: "jsstring list \<Rightarrow> conversation list \<Rightarrow> conversation option" where
  \<comment> \<open>\<open>Conversation.findOne({ participants: { $all: ids } })\<close>: the first stored
      conversation whose \<open>participants\<close> array holds every element of \<open>ids\<close>\<close>
  "findOne_all ids cs = find (\<lambda>c. list_all (\<lambda>u. u \<in> set (participants c)) ids) cs"

definition Conversation_create :: "jsstring list \<Rightarrow> chat_server \<Rightarrow> conversation \<times> chat_server" where
  \<comment> \<open>the store assigns the \<open>_id\<close>; documents are never deleted, so the count is fresh\<close>
  "Conversation_create ps st =
     (let c = \<lparr>c_id = length (conversations st), participants = ps, lastMessage = None\<rparr>
      in (c, st\<lparr>conversations := conversations st @ [c]\<rparr>))"

definition Message_create ::
  "nat \<Rightarrow> jsstring \<Rightarrow> jsstring \<Rightarrow> chat_server \<Rightarrow> message \<times> chat_server" where
  "Message_create cid senderId body st =
     (let m = \<lparr>m_id = length (messages st), conversation = cid, sender = senderId, content = body\<rparr>
      in (m, st\<lparr>messages := messages st @ [m]\<rparr>))"

definition Conversation_save :: "conversation \<Rightarrow> chat_server \<Rightarrow> chat_server" where
  \<comment> \<open>\<open>conversation.save()\<close> after \<open>conversation.lastMessage = message._id\<close>: the changed
      field is written to the stored document with that \<open>_id\<close>\<close>
  "Conversation_save c st =
     st\<lparr>conversations :=
          map (\<lambda>d. if c_id d = c_id c then d\<lparr>lastMessage := lastMessage c\<rparr> else d)
            (conversations st)\<rparr>"

definition authenticate ::
  "(jsstring \<Rightarrow> claims option) \<Rightarrow> chat_server \<Rightarrow> jsstring \<Rightarrow> jsstring
    \<Rightarrow> chat_server \<times> emission list" where
  \<comment> \<open>\<open>verify token\<close> is \<open>jwt.verify(token, process.env.JWT_SECRET)\<close>; \<open>None\<close> is its throw\<close>
  "authenticate verify st sock token =
     (case verify token of
        None \<Rightarrow> (st, [Emit sock ''auth_error'' (Str (js ''Invalid or expired token''))])
      | Some decoded \<Rightarrow>
          (let u = \<lparr>id' = id' decoded, email = email decoded, role = role decoded\<rparr> in
           (st\<lparr>user := (user st)(sock \<mapsto> u),
               connectedUsers := (connectedUsers st)
                 (email decoded \<mapsto> \<lparr>socketId = sock, userId = id' decoded\<rparr>)\<rparr>,
            [Emit sock ''auth_success''
               (Obj [(''id'', Str (id' u)), (''email'', Str (email u)), (''role'', Str (role u))])])))"

definition find_or_create ::
  "db_op list \<Rightarrow> jsstring \<Rightarrow> jsstring \<Rightarrow> chat_server \<Rightarrow> db_op + conversation \<times> chat_server" where
  \<comment> \<open>lines 96 to 104: \<open>findOne\<close>, then \<open>create\<close> when nothing was found\<close>
  "find_or_create faults senderId receiverId st =
     (if FindOne \<in> set faults then Inl FindOne
      else case findOne_all [senderId, receiverId] (conversations st) of
             Some c \<Rightarrow> Inr (c, st)
           | None \<Rightarrow>
               if CreateConversation \<in> set faults then Inl CreateConversation
               else Inr (Conversation_create [senderId, receiverId] st))"

definition send_message ::
  "db_op list \<Rightarrow> chat_server \<Rightarrow> jsstring \<Rightarrow> jsstring \<Rightarrow> jsstring
    \<Rightarrow> chat_server \<times> emission list \<times> outcome" where
  \<comment> \<open>the \<open>async\<close> handler run to its end with no other handler between its \<open>await\<close>s:
      the state it leaves, what it emitted, and whether its promise resolved or rejected
      (no \<open>try\<close> surrounds the \<open>await\<close>s)\<close>
  "send_message faults st sock toEmail body =
     (case user st sock of
        None \<Rightarrow> (st, [Emit sock ''error'' (Str (js ''You must authenticate first''))], Resolved)
      | Some u \<Rightarrow>
          (case connectedUsers st toEmail of
             None \<Rightarrow> (st, [Emit sock ''error'' (Str (js ''Recipient not online''))], Resolved)
           | Some recipient \<Rightarrow>
               (let senderId = id' u; receiverId = userId recipient in
                case find_or_create faults senderId receiverId st of
                  Inl f \<Rightarrow> (st, [], Rejected f)
                | Inr (conv, st1) \<Rightarrow>
                    if CreateMessage \<in> set faults then (st1, [], Rejected CreateMessage)
                    else (let (msg, st2) = Message_create (c_id conv) senderId body st1 in
                          if SaveConversation \<in> set faults
                          then (st2, [], Rejected SaveConversation)
                          else (Conversation_save (conv\<lparr>lastMessage := Some (m_id msg)\<rparr>) st2,
                                [Emit (socketId recipient) ''receive_message''
                                   (Obj [(''from'', Str (email u)), (''content'', Str body)])],
                                Resolved)))))"

definition disconnect :: "chat_server \<Rightarrow> jsstring \<Rightarrow> chat_server" where
  "disconnect st sock =
     (case user st sock of
        None \<Rightarrow> st
      | Some u \<Rightarrow> st\<lparr>connectedUsers := (connectedUsers st)(email u := None)\<rparr>)"

datatype chat_event =
    Authenticate jsstring jsstring
  | SendMessage jsstring jsstring jsstring "db_op list"
  | Disconnect jsstring

fun chat_step :: "(jsstring \<Rightarrow> claims option) \<Rightarrow> chat_server \<Rightarrow> chat_event \<Rightarrow> chat_server" where
  "chat_step verify st (Authenticate sock token) = fst (authenticate verify st sock token)"
| "chat_step verify st (SendMessage sock toEmail body faults) =
     fst (send_message faults st sock toEmail body)"
| "chat_step verify st (Disconnect sock) = disconnect st sock"

definition chat_run :: "(jsstring \<Rightarrow> claims option) \<Rightarrow> chat_event list \<Rightarrow> chat_server" where
  \<comment> \<open>the state after the handlers of \<open>evs\<close> ran one after the other from the empty state\<close>
  "chat_run verify evs = foldl (chat_step verify) chat_init evs"

section \<open>The authenticated server: handlers that overlap\<close>

text \<open>
  \<open>send_message\<close> is an \<open>async\<close> function: at each \<open>await\<close> it is suspended, and the
  handlers of the events that arrive meanwhile run (socket.io does not wait for the promise
  of a handler). A \<open>task\<close> is a suspended run: the \<open>await\<close> it stands at (lines 96, 101,
  107 and 115) and its local variables. \<open>send_start\<close> is the handler up to its first
  \<open>await\<close>, \<open>resume\<close> the stretch from one \<open>await\<close> to the next or to the end; the awaited
  database call takes effect where the run resumes, and \<open>socket.user.email\<close> is read when
  the event is emitted.
\<close>

datatype task =
    AtFindOne jsstring jsstring presence jsstring
  | AtCreateConversation jsstring jsstring presence jsstring
  | AtCreateMessage jsstring jsstring presence jsstring conversation
  | AtSave jsstring jsstring presence jsstring conversation

fun awaited :: "task \<Rightarrow> db_op" where
  "awaited (AtFindOne sock senderId recipient body) = FindOne"
| "awaited (AtCreateConversation sock senderId recipient body) = CreateConversation"
| "awaited (AtCreateMessage sock senderId recipient body conv) = CreateMessage"
| "awaited (AtSave sock senderId recipient body conv) = SaveConversation"

definition send_start ::
  "chat_server \<Rightarrow> jsstring \<Rightarrow> jsstring \<Rightarrow> jsstring \<Rightarrow> emission list + task" where
  "send_start st sock toEmail body =
     (case user st sock of
        None \<Rightarrow> Inl [Emit sock ''error'' (Str (js ''You must authenticate first''))]
      | Some u \<Rightarrow>
          (case connectedUsers st toEmail of
             None \<Rightarrow> Inl [Emit sock ''error'' (Str (js ''Recipient not online''))]
           | Some recipient \<Rightarrow> Inr (AtFindOne sock (id' u) recipient body)))"

fun resume :: "bool \<Rightarrow> task \<Rightarrow> chat_server \<Rightarrow> chat_server \<times> emission list \<times> (outcome + task)" where
  "resume rejects (AtFindOne sock senderId recipient body) st =
     (if rejects then (st, [], Inl (Rejected FindOne))
      else case findOne_all [senderId, userId recipient] (conversations st) of
             None \<Rightarrow> (st, [], Inr (AtCreateConversation sock senderId recipient body))
           | Some conv \<Rightarrow> (st, [], Inr (AtCreateMessage sock senderId recipient body conv)))"
| "resume rejects (AtCreateConversation sock senderId recipient body) st =
     (if rejects then (st, [], Inl (Rejected CreateConversation))
      else (let (conv, st1) = Conversation_create [senderId, userId recipient] st
            in (st1, [], Inr (AtCreateMessage sock senderId recipient body conv))))"
| "resume rejects (AtCreateMessage sock senderId recipient body conv) st =
     (if rejects then (st, [], Inl (Rejected CreateMessage))
      else (let (msg, st2) = Message_create (c_id conv) senderId body st
            in (st2, [], Inr (AtSave sock senderId recipient body
                                (conv\<lparr>lastMessage := Some (m_id msg)\<rparr>)))))"
| "resume rejects (AtSave sock senderId recipient body conv) st =
     (if rejects then (st, [], Inl (Rejected SaveConversation))
      else case user st sock of
             None \<Rightarrow> (Conversation_save conv st, [], Inl Threw)
           | Some u \<Rightarrow>
               (Conversation_save conv st,
                [Emit (socketId recipient) ''receive_message''
                   (Obj [(''from'', Str (email u)), (''content'', Str body)])],
                Inl Resolved))"

text \<open>\<open>drive n\<close> resumes one task up to \<open>n\<close> times in a row, nothing else in between.\<close>

fun drive ::
  "nat \<Rightarrow> db_op list \<Rightarrow> task \<Rightarrow> chat_server \<Rightarrow> chat_server \<times> emission list \<times> (outcome + task)" where
  "drive 0 faults t st = (st, [], Inr t)"
| "drive (Suc n) faults t st =
     (case resume (awaited t \<in> set faults) t st of
        (st', out, Inl res) \<Rightarrow> (st', out, Inl res)
      | (st', out, Inr t') \<Rightarrow>
          (case drive n faults t' st' of (st'', out', x) \<Rightarrow> (st'', out @ out', x)))"

text \<open>
  The server with its suspended runs and the events emitted so far. An action is an event
  arriving (its handler runs to its end, or to its first \<open>await\<close>) or the resumption of
  the suspended run at a position of the list.
\<close>

datatype action =
    OnAuthenticate jsstring jsstring
  | OnSendMessage jsstring jsstring jsstring
  | OnDisconnect jsstring
  | Resume nat bool

fun act ::
  "(jsstring \<Rightarrow> claims option) \<Rightarrow> chat_server \<times> task list \<times> emission list \<Rightarrow> action
    \<Rightarrow> chat_server \<times> task list \<times> emission list" where
  "act verify (st, ts, log) (OnAuthenticate sock token) =
     (case authenticate verify st sock token of (st', out) \<Rightarrow> (st', ts, log @ out))"
| "act verify (st, ts, log) (OnSendMessage sock toEmail body) =
     (case send_start st sock toEmail body of
        Inl out \<Rightarrow> (st, ts, log @ out)
      | Inr t \<Rightarrow> (st, ts @ [t], log))"
| "act verify (st, ts, log) (OnDisconnect sock) = (disconnect st sock, ts, log)"
| "act verify (st, ts, log) (Resume i rejects) =
     (if i < length ts
      then (case resume rejects (ts ! i) st of
              (st', out, Inl res) \<Rightarrow> (st', take i ts @ drop (Suc i) ts, log @ out)
            | (st', out, Inr t') \<Rightarrow> (st', ts[i := t'], log @ out))
      else (st, ts, log))"

definition interleaved_run ::
  "(jsstring \<Rightarrow> claims option) \<Rightarrow> action list \<Rightarrow> chat_server \<times> task list \<times> emission list" where
  "interleaved_run verify acts = foldl (act verify) (chat_init, [], []) acts"

section \<open>Vocabulary of the properties\<close>




definition codeUnits :: "jsstring \<Rightarrow> jsstring list" where
  \<comment> \<open>the keys \<open>removeHelper\<close> looks up: \<open>s[0]\<close>, \<open>s[1]\<close>, ...\<close>
  "codeUnits s = map (\<lambda>u. [u]) s"

definition stored :: "conversation \<Rightarrow> nat \<times> jsstring list" where
  \<comment> \<open>what no handler changes once a conversation is stored\<close>
  "stored c = (c_id c, participants c)"

text \<open>Two users and a verifier that accepts one token for each, for the runs below.\<close>

definition alice :: claims where
  "alice = \<lparr>id' = js ''u1'', email = js ''a@x.com'', role = js ''user''\<rparr>"

definition bob :: claims where
  "bob = \<lparr>id' = js ''u2'', email = js ''b@x.com'', role = js ''user''\<rparr>"

definition verify_example :: "jsstring \<Rightarrow> claims option" where
  "verify_example token =
     (if token = js ''token-a'' then Some alice
      else if token = js ''token-b'' then Some bob else None)"

lemmas chat_defs = chat_run_def chat_init_def authenticate_def send_message_def disconnect_def
  find_or_create_def findOne_all_def Conversation_create_def Message_create_def
  Conversation_save_def verify_example_def alice_def bob_def js_def Let_def

lemmas task_defs = interleaved_run_def send_start_def

lemmas trie_defs = trie_run_def trie_init_def register_def disconnect_trie_def
  send_message_trie_def Trie_insert_def Trie_search_def Trie_remove_def new_Trie_def
  new_TrieNode_def isLeadingSurrogate_def isTrailingSurrogate_def js_def Let_def not_found_def

section \<open>The trie: insert and search\<close>

lemma search_loop_new: "search_loop ks new_TrieNode = None"
  by (cases ks) (simp_all add: new_TrieNode_def)

lemma search_insert_loop_same: "search_loop ks (insert_loop ks sid t) = Some sid"
proof (induction ks arbitrary: t)
  case Nil
  show ?case by (cases t) simp
next
  case (Cons c r)
  show ?case by (cases t) (simp add: Let_def update_conv' Cons.IH)
qed

lemma search_insert_loop_other:
  "ks' \<noteq> ks \<Longrightarrow> search_loop ks' (insert_loop ks sid t) = search_loop ks' t"
proof (induction ks arbitrary: ks' t)
  case Nil
  then show ?case by (cases t; cases ks') simp_all
next
  case (Cons c r)
  obtain cs e s where t: "t = TrieNode cs e s" by (cases t)
  show ?case
  proof (cases ks')
    case Nil
    then show ?thesis by (simp add: t Let_def)
  next
    case (Cons c' r')
    show ?thesis
    proof (cases "c' = c")
      case False
      then show ?thesis by (simp add: t Cons Let_def update_conv')
    next
      case True
      with Cons Cons.prems have ne: "r' \<noteq> r" by simp
      show ?thesis
        using Cons.IH [OF ne] True
        by (simp add: t Cons Let_def update_conv' search_loop_new split: option.splits)
    qed
  qed
qed

lemma concat_codePoints: "concat (codePoints s) = s"
  by (induction s rule: codePoints.induct) simp_all

lemma concat_codeUnits: "concat (codeUnits s) = s"
  by (induction s) (simp_all add: codeUnits_def)

lemma codePoints_inj: "codePoints a = codePoints b \<Longrightarrow> a = b"
  by (metis concat_codePoints)

lemma Trie_search_insert_same: "Trie_search (Trie_insert t e sid) e = Some sid"
  by (simp add: Trie_search_def Trie_insert_def search_insert_loop_same)

lemma Trie_search_insert_other:
  "e' \<noteq> e \<Longrightarrow> Trie_search (Trie_insert t e sid) e' = Trie_search t e'"
proof -
  assume "e' \<noteq> e"
  then have "codePoints e' \<noteq> codePoints e" using codePoints_inj by blast
  then show ?thesis by (simp add: Trie_search_def Trie_insert_def search_insert_loop_other)
qed

lemma Trie_search_new: "Trie_search new_Trie e = None"
  by (simp add: Trie_search_def new_Trie_def search_loop_new)

lemma Trie_search_binds:
  "Trie_search (foldl (\<lambda>t (e, sid). Trie_insert t e sid) new_Trie binds) e = map_of (rev binds) e"
proof (induction binds rule: rev_induct)
  case Nil
  show ?case by (simp add: Trie_search_new)
next
  case (snoc b binds)
  obtain e' sid where b: "b = (e', sid)" by (cases b)
  show ?case
    using snoc.IH
    by (cases "e = e'") (simp_all add: b Trie_search_insert_same Trie_search_insert_other)
qed

section \<open>The trie: remove\<close>

lemma delete_Nil_map_of: "AList.delete k cs = [] \<Longrightarrow> k' \<noteq> k \<Longrightarrow> map_of cs k' = None"
  using delete_conv' [of k cs] by (auto simp: fun_eq_iff split: if_splits)

text \<open>A node that \<open>removeHelper\<close> reports as removable holds nothing off the walked path.\<close>

lemma removeHelper_pruned:
  "fst (removeHelper us t) \<Longrightarrow> ks \<noteq> codeUnits us \<Longrightarrow> search_loop ks t = None"
proof (induction us arbitrary: t ks)
  case Nil
  obtain cs e s where t: "t = TrieNode cs e s" by (cases t)
  from Nil show ?case by (cases ks) (auto simp: t codeUnits_def split: if_splits)
next
  case (Cons u us)
  obtain cs e s where t: "t = TrieNode cs e s" by (cases t)
  from Cons.prems(1) obtain child where
    child: "map_of cs [u] = Some child" and r: "fst (removeHelper us child)"
    and e: "\<not> e" and del: "AList.delete [u] cs = []"
    by (auto simp: t Let_def split: option.splits prod.splits if_splits)
  show ?case
  proof (cases ks)
    case Nil
    then show ?thesis using e by (simp add: t)
  next
    case (Cons c r')
    show ?thesis
    proof (cases "c = [u]")
      case True
      with Cons Cons.prems(2) have "r' \<noteq> codeUnits us" by (simp add: codeUnits_def)
      from Cons.IH [OF r this] show ?thesis by (simp add: t Cons True child)
    next
      case False
      then show ?thesis using delete_Nil_map_of [OF del False] by (simp add: t Cons)
    qed
  qed
qed

lemma removeHelper_frame:
  "ks \<noteq> codeUnits us \<Longrightarrow> search_loop ks (snd (removeHelper us t)) = search_loop ks t"
proof (induction us arbitrary: t ks)
  case Nil
  obtain cs e s where t: "t = TrieNode cs e s" by (cases t)
  from Nil show ?case by (cases ks) (auto simp: t codeUnits_def)
next
  case (Cons u us)
  obtain cs e s where t: "t = TrieNode cs e s" by (cases t)
  show ?case
  proof (cases "map_of cs [u]")
    case None
    then show ?thesis by (simp add: t)
  next
    case (Some child)
    obtain r child' where rh: "removeHelper us child = (r, child')"
      by (cases "removeHelper us child")
    show ?thesis
    proof (cases ks)
      case Nil
      then show ?thesis by (simp add: t Some rh Let_def)
    next
      case (Cons c r')
      show ?thesis
      proof (cases "c = [u]")
        case False
        then show ?thesis
          by (simp add: t Some rh Cons Let_def update_conv' delete_conv')
      next
        case True
        with Cons Cons.prems have ne: "r' \<noteq> codeUnits us" by (simp add: codeUnits_def)
        show ?thesis
        proof (cases r)
          case False
          with Cons.IH [OF ne, of child] rh show ?thesis
            by (simp add: t Some Cons True Let_def update_conv')
        next
          case True
          with rh have "fst (removeHelper us child)" by simp
          from removeHelper_pruned [OF this ne] show ?thesis
            using rh True by (simp add: t Some Cons \<open>c = [u]\<close> Let_def delete_conv')
        qed
      qed
    qed
  qed
qed

lemma removeHelper_removes: "search_loop (codeUnits us) (snd (removeHelper us t)) = None"
proof (induction us arbitrary: t)
  case Nil
  show ?case by (cases t) (simp add: codeUnits_def)
next
  case (Cons u us)
  obtain cs e s where t: "t = TrieNode cs e s" by (cases t)
  show ?case
  proof (cases "map_of cs [u]")
    case None
    then show ?thesis by (simp add: t codeUnits_def)
  next
    case (Some child)
    obtain r child' where rh: "removeHelper us child = (r, child')"
      by (cases "removeHelper us child")
    from Cons.IH [of child] rh have "search_loop (codeUnits us) child' = None" by simp
    then show ?thesis
      by (simp add: t Some rh Let_def codeUnits_def update_conv' delete_conv')
  qed
qed

text \<open>Removing one email never touches the entry of another.\<close>

lemma Trie_remove_frame:
  "e2 \<noteq> e1 \<Longrightarrow> Trie_search (Trie_remove t e1) e2 = Trie_search t e2"
proof -
  assume "e2 \<noteq> e1"
  then have "codePoints e2 \<noteq> codeUnits e1" by (metis concat_codePoints concat_codeUnits)
  then show ?thesis by (simp add: Trie_search_def Trie_remove_def removeHelper_frame)
qed

text \<open>
  An email without a surrogate pair is walked by \<open>remove\<close> along the path \<open>insert\<close> and
  \<open>search\<close> take, and its entry goes; an email with one is walked along another path, and
  \<open>remove\<close> changes no entry at all.
\<close>

lemma Trie_remove_removes:
  "codePoints e = codeUnits e \<Longrightarrow> Trie_search (Trie_remove t e) e = None"
  by (simp add: Trie_search_def Trie_remove_def removeHelper_removes)

lemma Trie_remove_no_effect:
  "codePoints e \<noteq> codeUnits e \<Longrightarrow> Trie_search (Trie_remove t e) e' = Trie_search t e'"
proof (cases "e' = e")
  case True
  assume "codePoints e \<noteq> codeUnits e"
  with True show ?thesis by (simp add: Trie_search_def Trie_remove_def removeHelper_frame)
next
  case False
  then show ?thesis by (rule Trie_remove_frame)
qed

section \<open>The authenticated server: what the handlers keep\<close>

lemma chat_run_snoc: "chat_run verify (evs @ [ev]) = chat_step verify (chat_run verify evs) ev"
  by (simp add: chat_run_def)

lemma findOne_all_set:
  "findOne_all ids cs = find (\<lambda>c. set ids \<subseteq> set (participants c)) cs"
  by (simp add: findOne_all_def list_all_iff subset_eq)

lemma find_stored_append:
  assumes "map stored cs' = map stored cs @ zs"
    and "find (\<lambda>c. S \<subseteq> set (participants c)) cs = Some c"
  shows "\<exists>c'. find (\<lambda>c. S \<subseteq> set (participants c)) cs' = Some c' \<and> stored c' = stored c"
  using assms
proof (induction cs arbitrary: cs')
  case Nil
  then show ?case by simp
next
  case (Cons x xs)
  from Cons.prems(1) obtain y ys where cs': "cs' = y # ys" and y: "stored y = stored x"
    and ys: "map stored ys = map stored xs @ zs"
    by (cases cs') auto
  from y have p: "participants y = participants x" by (simp add: stored_def)
  show ?case
  proof (cases "S \<subseteq> set (participants x)")
    case True
    with Cons.prems(2) have "x = c" by simp
    with True p y show ?thesis by (simp add: cs')
  next
    case False
    with Cons.prems(2) have "find (\<lambda>c. S \<subseteq> set (participants c)) xs = Some c" by simp
    from Cons.IH [OF ys this] False p show ?thesis by (simp add: cs')
  qed
qed

lemma stored_save:
  "map stored (conversations (Conversation_save c st)) = map stored (conversations st)"
  by (simp add: Conversation_save_def stored_def o_def)

lemma find_or_create_stored:
  "find_or_create faults a b st = Inr (c, st1) \<Longrightarrow>
   \<exists>zs. map stored (conversations st1) = map stored (conversations st) @ zs"
  by (auto simp: find_or_create_def Conversation_create_def Let_def
      split: if_splits option.splits)

lemma send_message_cases:
  assumes "user st sock = Some u" and "connectedUsers st toEmail = Some r"
    and "send_message faults st sock toEmail body = (st', out, Resolved)"
  shows "\<exists>c st1. find_or_create faults (id' u) (userId r) st = Inr (c, st1)
     \<and> st' = Conversation_save (c\<lparr>lastMessage := Some (length (messages st1))\<rparr>)
             (st1\<lparr>messages := messages st1 @
                [\<lparr>m_id = length (messages st1), conversation = c_id c, sender = id' u,
                  content = body\<rparr>]\<rparr>)
     \<and> out = [Emit (socketId r) ''receive_message''
                (Obj [(''from'', Str (email u)), (''content'', Str body)])]"
  using assms
  by (auto simp: send_message_def Message_create_def Let_def
      split: sum.splits if_splits prod.splits)

lemma send_message_stored:
  "\<exists>zs. map stored (conversations (fst (send_message faults st sock toEmail body)))
      = map stored (conversations st) @ zs"
proof (cases "user st sock")
  case None
  then show ?thesis by (simp add: send_message_def)
next
  case (Some u)
  show ?thesis
  proof (cases "connectedUsers st toEmail")
    case None
    with Some show ?thesis by (simp add: send_message_def)
  next
    case r: (Some r)
    show ?thesis
    proof (cases "find_or_create faults (id' u) (userId r) st")
      case (Inl f)
      with Some r show ?thesis by (simp add: send_message_def Let_def)
    next
      case (Inr p)
      obtain c st1 where p: "p = (c, st1)" by (cases p)
      from find_or_create_stored [OF Inr [unfolded p]] obtain zs where
        "map stored (conversations st1) = map stored (conversations st) @ zs" ..
      with Some r Inr p show ?thesis
        by (auto simp: send_message_def Let_def Message_create_def stored_save)
    qed
  qed
qed

lemma chat_step_stored:
  "\<exists>zs. map stored (conversations (chat_step verify st ev)) = map stored (conversations st) @ zs"
proof (cases ev)
  case (Authenticate sock token)
  then show ?thesis by (simp add: authenticate_def Let_def split: option.splits)
next
  case (SendMessage sock toEmail body faults)
  then show ?thesis using send_message_stored by simp
next
  case (Disconnect sock)
  then show ?thesis by (simp add: disconnect_def split: option.splits)
qed

lemma foldl_chat_step_stored:
  "\<exists>zs. map stored (conversations (foldl (chat_step verify) st evs))
      = map stored (conversations st) @ zs"
proof (induction evs arbitrary: st)
  case Nil
  show ?case by simp
next
  case (Cons ev evs)
  from chat_step_stored obtain zs where
    a: "map stored (conversations (chat_step verify st ev)) = map stored (conversations st) @ zs" ..
  from Cons.IH obtain zs' where
    "map stored (conversations (foldl (chat_step verify) (chat_step verify st ev) evs))
      = map stored (conversations (chat_step verify st ev)) @ zs'" ..
  with a show ?case by simp
qed

lemma find_append_last: "find P xs = None \<Longrightarrow> P x \<Longrightarrow> find P (xs @ [x]) = Some x"
  by (induction xs) (auto split: if_splits)

text \<open>After \<open>find_or_create\<close> the first stored match of the pair is the conversation it returned.\<close>

lemma find_or_create_first:
  assumes "find_or_create faults a b st = Inr (c, st1)"
  shows "\<exists>c'. find (\<lambda>d. {a, b} \<subseteq> set (participants d)) (conversations st1) = Some c'
      \<and> stored c' = stored c"
proof (cases "findOne_all [a, b] (conversations st)")
  case None
  then have n: "find (\<lambda>d. {a, b} \<subseteq> set (participants d)) (conversations st) = None"
    by (simp add: findOne_all_set)
  from assms None have c: "c = \<lparr>c_id = length (conversations st), participants = [a, b], lastMessage = None\<rparr>"
    and st1: "conversations st1 = conversations st @ [c]"
    by (auto simp: find_or_create_def Conversation_create_def Let_def split: if_splits)
  have "find (\<lambda>d. {a, b} \<subseteq> set (participants d)) (conversations st @ [c]) = Some c"
    using n by (rule find_append_last) (simp add: c)
  then show ?thesis by (simp add: st1)
next
  case (Some d)
  with assms have "c = d" "st1 = st"
    by (auto simp: find_or_create_def split: if_splits)
  with Some show ?thesis by (simp add: findOne_all_set)
qed


lemma send_message_resolves:
  assumes "user st sock = Some u" and "connectedUsers st toEmail = Some r"
    and "send_message faults st sock toEmail body = (st', out, Resolved)"
  shows "\<exists>c'. find (\<lambda>d. {id' u, userId r} \<subseteq> set (participants d)) (conversations st') = Some c'
      \<and> c_id c' = conversation (last (messages st'))"
proof -
  from send_message_cases [OF assms] obtain c st1 where
    foc: "find_or_create faults (id' u) (userId r) st = Inr (c, st1)"
    and st': "st' = Conversation_save (c\<lparr>lastMessage := Some (length (messages st1))\<rparr>)
             (st1\<lparr>messages := messages st1 @
                [\<lparr>m_id = length (messages st1), conversation = c_id c, sender = id' u,
                  content = body\<rparr>]\<rparr>)"
    by blast
  from find_or_create_first [OF foc] obtain c1 where
    c1: "find (\<lambda>d. {id' u, userId r} \<subseteq> set (participants d)) (conversations st1) = Some c1"
    and s1: "stored c1 = stored c" by blast
  have "map stored (conversations st') = map stored (conversations st1) @ []"
    by (simp add: st' stored_save)
  from find_stored_append [OF this c1] obtain c2 where
    "find (\<lambda>d. {id' u, userId r} \<subseteq> set (participants d)) (conversations st') = Some c2"
    and "stored c2 = stored c1" by blast
  moreover have "conversation (last (messages st')) = c_id c"
    by (simp add: st' Conversation_save_def)
  ultimately show ?thesis using s1 by (auto simp: stored_def)
qed

lemma send_message_uses_first:
  assumes "user st sock = Some u" and "connectedUsers st toEmail = Some r"
    and "send_message faults st sock toEmail body = (st', out, Resolved)"
    and "find (\<lambda>d. {id' u, userId r} \<subseteq> set (participants d)) (conversations st) = Some c0"
  shows "conversation (last (messages st')) = c_id c0"
proof -
  from send_message_cases [OF assms(1-3)] obtain c st1 where
    foc: "find_or_create faults (id' u) (userId r) st = Inr (c, st1)"
    and st': "st' = Conversation_save (c\<lparr>lastMessage := Some (length (messages st1))\<rparr>)
             (st1\<lparr>messages := messages st1 @
                [\<lparr>m_id = length (messages st1), conversation = c_id c, sender = id' u,
                  content = body\<rparr>]\<rparr>)"
    by blast
  from assms(4) have "findOne_all [id' u, userId r] (conversations st) = Some c0"
    by (simp add: findOne_all_set)
  with foc have "c = c0" by (auto simp: find_or_create_def split: if_splits)
  then show ?thesis by (simp add: st' Conversation_save_def)
qed

lemma same_conversation:
  assumes first: "user st s1 = Some u1" "connectedUsers st e1 = Some r1"
      "send_message f1 st s1 e1 b1 = (st1, out1, Resolved)"
    and later: "st2 = foldl (chat_step verify) st1 evs'"
      "user st2 s2 = Some u2" "connectedUsers st2 e2 = Some r2"
      "send_message f2 st2 s2 e2 b2 = (st3, out2, Resolved)"
    and pair: "{id' u2, userId r2} = {id' u1, userId r1}"
  shows "conversation (last (messages st3)) = conversation (last (messages st1))"
proof -
  from send_message_resolves [OF first] obtain c1 where
    c1: "find (\<lambda>d. {id' u1, userId r1} \<subseteq> set (participants d)) (conversations st1) = Some c1"
    and id1: "c_id c1 = conversation (last (messages st1))" by blast
  from foldl_chat_step_stored [of verify st1 evs'] obtain zs where
    "map stored (conversations st2) = map stored (conversations st1) @ zs"
    by (auto simp: later(1))
  from find_stored_append [OF this c1] obtain c2 where
    c2: "find (\<lambda>d. {id' u1, userId r1} \<subseteq> set (participants d)) (conversations st2) = Some c2"
    and s2: "stored c2 = stored c1" by blast
  from c2 pair have "find (\<lambda>d. {id' u2, userId r2} \<subseteq> set (participants d)) (conversations st2) = Some c2"
    by simp
  from send_message_uses_first [OF later(2-4) this] s2 id1 show ?thesis
    by (simp add: stored_def)
qed

text \<open>No handler stores a second conversation with the participant set of a stored one.\<close>

lemma send_message_participants:
  "map participants (conversations (fst (send_message faults st sock toEmail body)))
     = map participants (conversations st)
   \<or> (\<exists>a b. map participants (conversations (fst (send_message faults st sock toEmail body)))
          = map participants (conversations st) @ [[a, b]]
        \<and> find (\<lambda>d. {a, b} \<subseteq> set (participants d)) (conversations st) = None)"
  by (auto simp: send_message_def find_or_create_def Conversation_create_def Message_create_def
      Conversation_save_def Let_def o_def findOne_all_set
      split: option.splits sum.splits prod.splits if_splits)

lemma distinct_sets_send:
  assumes "distinct (map (\<lambda>c. set (participants c)) (conversations st))"
  shows "distinct (map (\<lambda>c. set (participants c))
           (conversations (fst (send_message faults st sock toEmail body))))"
proof -
  let ?st' = "fst (send_message faults st sock toEmail body)"
  have eq: "\<And>s. map (\<lambda>c. set (participants c)) (conversations s)
      = map set (map participants (conversations s))" by (simp add: o_def)
  from send_message_participants [of faults st sock toEmail body] show ?thesis
  proof
    assume "map participants (conversations ?st') = map participants (conversations st)"
    with assms show ?thesis by (simp only: eq)
  next
    assume "\<exists>a b. map participants (conversations ?st') = map participants (conversations st) @ [[a, b]]
        \<and> find (\<lambda>d. {a, b} \<subseteq> set (participants d)) (conversations st) = None"
    then obtain a b where
      m: "map participants (conversations ?st') = map participants (conversations st) @ [[a, b]]"
      and n: "find (\<lambda>d. {a, b} \<subseteq> set (participants d)) (conversations st) = None" by blast
    from n have "{a, b} \<notin> set (map (\<lambda>c. set (participants c)) (conversations st))"
      by (auto simp: find_None_iff)
    with assms show ?thesis by (simp add: eq m)
  qed
qed

lemma distinct_sets_step:
  "distinct (map (\<lambda>c. set (participants c)) (conversations st)) \<Longrightarrow>
   distinct (map (\<lambda>c. set (participants c)) (conversations (chat_step verify st ev)))"
  by (cases ev)
    (simp_all add: distinct_sets_send authenticate_def disconnect_def Let_def split: option.splits)

lemma distinct_sets_run:
  "distinct (map (\<lambda>c. set (participants c)) (conversations (chat_run verify evs)))"
  by (induction evs rule: rev_induct)
    (simp_all add: chat_run_snoc distinct_sets_step, simp add: chat_run_def chat_init_def)

lemma distinct_map_filter_le1:
  "distinct (map f xs) \<Longrightarrow> length (filter (\<lambda>x. f x = v) xs) \<le> 1"
  by (induction xs) (auto simp: filter_empty_conv image_iff)


lemma send_message_user: "user (fst (send_message faults st sock toEmail body)) = user st"
  by (simp add: send_message_def find_or_create_def Conversation_create_def Message_create_def
      Conversation_save_def Let_def split: option.splits sum.splits prod.splits)

lemma send_message_connectedUsers:
  "connectedUsers (fst (send_message faults st sock toEmail body)) = connectedUsers st"
  by (simp add: send_message_def find_or_create_def Conversation_create_def Message_create_def
      Conversation_save_def Let_def split: option.splits sum.splits prod.splits)

lemma connectedUsers_verified:
  "connectedUsers (chat_run verify evs) e = Some p \<Longrightarrow>
   \<exists>token d. Authenticate (socketId p) token \<in> set evs \<and> verify token = Some d
      \<and> email d = e \<and> id' d = userId p"
proof (induction evs arbitrary: e p rule: rev_induct)
  case Nil
  then show ?case by (simp add: chat_run_def chat_init_def)
next
  case (snoc ev evs)
  let ?st = "chat_run verify evs"
  note run = chat_run_snoc
  show ?case
  proof (cases ev)
    case (Authenticate sock token)
    show ?thesis
    proof (cases "verify token")
      case None
      with snoc.prems have "connectedUsers ?st e = Some p"
        by (simp add: run Authenticate authenticate_def)
      from snoc.IH [OF this] show ?thesis by auto
    next
      case (Some d)
      show ?thesis
      proof (cases "e = email d")
        case True
        with snoc.prems Some have "p = \<lparr>socketId = sock, userId = id' d\<rparr>"
          by (simp add: run Authenticate authenticate_def Let_def)
        with Some True show ?thesis by (auto simp: Authenticate)
      next
        case False
        with snoc.prems Some have "connectedUsers ?st e = Some p"
          by (simp add: run Authenticate authenticate_def Let_def)
        from snoc.IH [OF this] show ?thesis by auto
      qed
    qed
  next
    case (SendMessage sock toEmail body faults)
    with snoc.prems have "connectedUsers ?st e = Some p"
      by (simp add: run send_message_connectedUsers)
    from snoc.IH [OF this] show ?thesis by auto
  next
    case (Disconnect sock)
    with snoc.prems have "connectedUsers ?st e = Some p"
      by (auto simp: run disconnect_def split: option.splits if_splits)
    from snoc.IH [OF this] show ?thesis by auto
  qed
qed

lemma send_message_rejected_silent:
  "send_message faults st sock toEmail body = (st', out, Rejected f) \<Longrightarrow> out = []"
  by (auto simp: send_message_def Message_create_def Let_def
      split: option.splits sum.splits if_splits prod.splits)

lemma find_or_create_messages:
  "find_or_create faults a b st = Inr (c, st1) \<Longrightarrow> messages st1 = messages st"
  by (auto simp: find_or_create_def Conversation_create_def Let_def
      split: if_splits option.splits)

lemma send_message_delivers_after_save:
  assumes "send_message faults st sock toEmail body = (st', out, res)"
    and "Emit target ''receive_message'' pl \<in> set out"
  shows "res = Resolved \<and> length (messages st') = Suc (length (messages st))
    \<and> content (last (messages st')) = body"
proof -
  from assms obtain u r where u: "user st sock = Some u" and r: "connectedUsers st toEmail = Some r"
    by (auto simp: send_message_def split: option.splits)
  from assms u r have res: "res = Resolved"
    by (auto simp: send_message_def Message_create_def Let_def
        split: sum.splits if_splits prod.splits)
  from send_message_cases [OF u r assms(1) [unfolded res]] obtain c st1 where
    foc: "find_or_create faults (id' u) (userId r) st = Inr (c, st1)"
    and st': "st' = Conversation_save (c\<lparr>lastMessage := Some (length (messages st1))\<rparr>)
             (st1\<lparr>messages := messages st1 @
                [\<lparr>m_id = length (messages st1), conversation = c_id c, sender = id' u,
                  content = body\<rparr>]\<rparr>)"
    by blast
  from find_or_create_messages [OF foc] res show ?thesis
    by (simp add: st' Conversation_save_def)
qed

lemma disconnect_unconditional:
  "user st sock = Some u \<Longrightarrow> connectedUsers (disconnect st sock) (email u) = None"
  by (simp add: disconnect_def)

lemma disconnect_trie_other_handle:
  assumes "distinct (map fst (emailToSocket ts))"
    and "map_of (emailToSocket ts) e = Some h2" and "h1 \<noteq> h2"
  shows "Trie_search (trie (disconnect_trie ts h1)) e = Trie_search (trie ts) e
    \<and> map_of (emailToSocket (disconnect_trie ts h1)) e = Some h2"
proof (cases "find (\<lambda>(em, sid). sid = h1) (emailToSocket ts)")
  case None
  with assms show ?thesis by (simp add: disconnect_trie_def)
next
  case (Some p)
  obtain e' sid where p: "p = (e', sid)" by (cases p)
  from Some p have "(e', sid) \<in> set (emailToSocket ts)" and "sid = h1"
    by (auto simp: find_Some_iff in_set_conv_nth)
  with assms(1) have "map_of (emailToSocket ts) e' = Some h1" by (simp add: map_of_is_SomeI)
  with assms(2,3) have ne: "e \<noteq> e'" by auto
  with Some p assms(2) show ?thesis
    by (simp add: disconnect_trie_def Trie_remove_frame delete_conv')
qed

section \<open>The authenticated server: suspended runs\<close>

text \<open>A run that nothing interrupts is \<open>send_message\<close>.\<close>

lemma drive_send_message:
  assumes "user st sock = Some u" and "connectedUsers st toEmail = Some r"
  shows "send_start st sock toEmail body = Inr (AtFindOne sock (id' u) r body)
    \<and> drive 4 faults (AtFindOne sock (id' u) r body) st
       = (case send_message faults st sock toEmail body of (st', out, res) \<Rightarrow> (st', out, Inl res))"
  using assms
  by (simp add: send_start_def send_message_def find_or_create_def Conversation_create_def
      Message_create_def Conversation_save_def Let_def numeral_eq_Suc
      split: option.splits sum.splits prod.splits)

lemma interleaved_run_snoc:
  "interleaved_run verify (acts @ [a]) = act verify (interleaved_run verify acts) a"
  by (simp add: interleaved_run_def)

lemma resume_connectedUsers: "connectedUsers (fst (resume rejects t st)) = connectedUsers st"
  by (cases t)
    (simp_all add: Conversation_create_def Message_create_def Conversation_save_def Let_def
      split: option.splits)


lemma resume_emission:
  assumes "resume rejects t st = (st', out, x)" and "Emit target ev pl \<in> set out"
  shows "\<exists>sock a r body conv u. t = AtSave sock a r body conv \<and> user st sock = Some u
     \<and> x = Inl Resolved \<and> target = socketId r \<and> ev = ''receive_message''
     \<and> pl = Obj [(''from'', Str (email u)), (''content'', Str body)]"
  using assms
  by (cases t)
    (auto simp: Conversation_create_def Message_create_def Let_def
      split: option.splits if_splits)

lemma act_connectedUsers_resume:
  "connectedUsers (fst (act verify s (Resume i rejects))) = connectedUsers (fst s)"
proof -
  obtain st ts log where s: "s = (st, ts, log)" by (cases s)
  show ?thesis
  proof (cases "i < length ts")
    case True
    obtain st' out x where r: "resume rejects (ts ! i) st = (st', out, x)"
      by (cases "resume rejects (ts ! i) st")
    from resume_connectedUsers [of rejects "ts ! i" st] r
    have "connectedUsers st' = connectedUsers st" by simp
    with True r show ?thesis by (cases x) (simp_all add: s)
  next
    case False
    then show ?thesis by (simp add: s)
  qed
qed

lemma interleaved_connectedUsers_verified:
  "connectedUsers (fst (interleaved_run verify acts)) e = Some p \<Longrightarrow>
   \<exists>token d. OnAuthenticate (socketId p) token \<in> set acts \<and> verify token = Some d
      \<and> email d = e \<and> id' d = userId p"
proof (induction acts arbitrary: e p rule: rev_induct)
  case Nil
  then show ?case by (simp add: interleaved_run_def chat_init_def)
next
  case (snoc a acts)
  obtain st ts log where s: "interleaved_run verify acts = (st, ts, log)"
    by (cases "interleaved_run verify acts")
  note run = interleaved_run_snoc
  show ?case
  proof (cases a)
    case (OnAuthenticate sock token)
    show ?thesis
    proof (cases "verify token")
      case None
      with snoc.prems have "connectedUsers (fst (interleaved_run verify acts)) e = Some p"
        by (simp add: run s OnAuthenticate authenticate_def)
      from snoc.IH [OF this] show ?thesis by auto
    next
      case (Some d)
      show ?thesis
      proof (cases "e = email d")
        case True
        with snoc.prems Some have "p = \<lparr>socketId = sock, userId = id' d\<rparr>"
          by (simp add: run s OnAuthenticate authenticate_def Let_def)
        with Some True show ?thesis by (auto simp: OnAuthenticate)
      next
        case False
        with snoc.prems Some have "connectedUsers (fst (interleaved_run verify acts)) e = Some p"
          by (simp add: run s OnAuthenticate authenticate_def Let_def)
        from snoc.IH [OF this] show ?thesis by auto
      qed
    qed
  next
    case (OnSendMessage sock toEmail body)
    with snoc.prems have "connectedUsers (fst (interleaved_run verify acts)) e = Some p"
      by (simp add: run s split: sum.splits)
    from snoc.IH [OF this] show ?thesis by auto
  next
    case (OnDisconnect sock)
    with snoc.prems have "connectedUsers (fst (interleaved_run verify acts)) e = Some p"
      by (auto simp: run s disconnect_def split: option.splits if_splits)
    from snoc.IH [OF this] show ?thesis by auto
  next
    case (Resume i rejects)
    with snoc.prems have "connectedUsers (fst (interleaved_run verify acts)) e = Some p"
      by (simp add: run act_connectedUsers_resume)
    from snoc.IH [OF this] show ?thesis by auto
  qed
qed









section \<open>The claims\<close>

subsection \<open>C1: a stale disconnect and a newer bind\<close>

text \<open>
  C1. The claim: when the directory maps an identity to \<open>h2\<close>, the disconnect of another
  handle \<open>h1\<close> leaves that entry. The \<open>disconnect\<close> handler of index.js compares the stored
  id with the socket's (\<open>disconnect_trie_other_handle\<close>); the one of the authenticated
  server deletes the entry of \<open>socket.user.email\<close> whatever it points at
  (\<open>disconnect_unconditional\<close>). Run: \<open>h1\<close> and then \<open>h2\<close> authenticate with a token of
  \<open>a@x.com\<close>, so the entry points at \<open>h2\<close>; \<open>h1\<close> disconnects; the entry is gone.
\<close>

theorem stale_disconnect_removes_newer_bind:
  "connectedUsers
     (chat_run verify_example
        [Authenticate (js ''h1'') (js ''token-a''), Authenticate (js ''h2'') (js ''token-a'')])
     (js ''a@x.com'') = Some \<lparr>socketId = js ''h2'', userId = js ''u1''\<rparr>
   \<and> connectedUsers
     (chat_run verify_example
        [Authenticate (js ''h1'') (js ''token-a''), Authenticate (js ''h2'') (js ''token-a''),
         Disconnect (js ''h1'')])
     (js ''a@x.com'') = None"
  by (simp add: chat_defs)

subsection \<open>C2: one conversation for a pair\<close>

text \<open>
  When every run of a handler ends before the next event is handled: in the state after
  any sequence of events at most one stored conversation has the participant set
  \<open>{A, B}\<close>, and two successful sends between \<open>A\<close> and \<open>B\<close>, in either direction and with
  any events in between, store their messages under the same conversation id.
\<close>

lemma sequential_one_conversation_per_pair:
  "length (filter (\<lambda>c. set (participants c) = {A, B}) (conversations (chat_run verify evs))) \<le> 1
   \<and> (\<forall>s1 e1 b1 f1 u1 r1 st1 out1 evs' s2 e2 b2 f2 u2 r2 st3 out2.
        user (chat_run verify evs) s1 = Some u1
        \<and> connectedUsers (chat_run verify evs) e1 = Some r1
        \<and> send_message f1 (chat_run verify evs) s1 e1 b1 = (st1, out1, Resolved)
        \<and> user (foldl (chat_step verify) st1 evs') s2 = Some u2
        \<and> connectedUsers (foldl (chat_step verify) st1 evs') e2 = Some r2
        \<and> send_message f2 (foldl (chat_step verify) st1 evs') s2 e2 b2 = (st3, out2, Resolved)
        \<and> {id' u1, userId r1} = {A, B} \<and> {id' u2, userId r2} = {A, B}
        \<longrightarrow> conversation (last (messages st3)) = conversation (last (messages st1)))"
proof (intro conjI allI impI)
  show "length (filter (\<lambda>c. set (participants c) = {A, B})
          (conversations (chat_run verify evs))) \<le> 1"
    using distinct_sets_run by (rule distinct_map_filter_le1)
next
  fix s1 e1 b1 f1 u1 r1 st1 out1 evs' s2 e2 b2 f2 u2 r2 st3 out2
  assume h: "user (chat_run verify evs) s1 = Some u1
        \<and> connectedUsers (chat_run verify evs) e1 = Some r1
        \<and> send_message f1 (chat_run verify evs) s1 e1 b1 = (st1, out1, Resolved)
        \<and> user (foldl (chat_step verify) st1 evs') s2 = Some u2
        \<and> connectedUsers (foldl (chat_step verify) st1 evs') e2 = Some r2
        \<and> send_message f2 (foldl (chat_step verify) st1 evs') s2 e2 b2 = (st3, out2, Resolved)
        \<and> {id' u1, userId r1} = {A, B} \<and> {id' u2, userId r2} = {A, B}"
  then have pair: "{id' u2, userId r2} = {id' u1, userId r1}" by simp
  from h show "conversation (last (messages st3)) = conversation (last (messages st1))"
    by (intro same_conversation [OF _ _ _ refl _ _ _ pair]) blast+
qed

lemma sequential_one_conversation_per_pair_example:
  "length (filter (\<lambda>c. set (participants c) = {js ''u1'', js ''u2''})
     (conversations (chat_run verify_example
        [Authenticate (js ''h1'') (js ''token-a''), Authenticate (js ''h2'') (js ''token-b''),
         SendMessage (js ''h1'') (js ''b@x.com'') (js ''hi'') [],
         SendMessage (js ''h2'') (js ''a@x.com'') (js ''yo'') []]))) \<le> 1
   \<and> map conversation (messages
        (fst (send_message []
           (fst (send_message []
              (chat_run verify_example
                 [Authenticate (js ''h1'') (js ''token-a''), Authenticate (js ''h2'') (js ''token-b'')])
              (js ''h1'') (js ''b@x.com'') (js ''hi'')))
           (js ''h2'') (js ''a@x.com'') (js ''yo'')))) = [0, 0]"
proof -
  let ?st = "chat_run verify_example
     [Authenticate (js ''h1'') (js ''token-a''), Authenticate (js ''h2'') (js ''token-b'')]"
  let ?r1 = "send_message [] ?st (js ''h1'') (js ''b@x.com'') (js ''hi'')"
  let ?r2 = "send_message [] (fst ?r1) (js ''h2'') (js ''a@x.com'') (js ''yo'')"
  have u1: "user ?st (js ''h1'') = Some alice" by (simp add: chat_defs)
  have c1: "connectedUsers ?st (js ''b@x.com'') = Some \<lparr>socketId = js ''h2'', userId = js ''u2''\<rparr>"
    by (simp add: chat_defs)
  have s1: "?r1 = (fst ?r1, fst (snd ?r1), Resolved)" by (simp add: chat_defs)
  have u2: "user (foldl (chat_step verify_example) (fst ?r1) []) (js ''h2'') = Some bob"
    by (simp add: chat_defs)
  have c2: "connectedUsers (foldl (chat_step verify_example) (fst ?r1) []) (js ''a@x.com'')
      = Some \<lparr>socketId = js ''h1'', userId = js ''u1''\<rparr>"
    by (simp add: chat_defs)
  have s2: "send_message [] (foldl (chat_step verify_example) (fst ?r1) [])
        (js ''h2'') (js ''a@x.com'') (js ''yo'')
      = (fst ?r2, fst (snd ?r2), Resolved)" by (simp add: chat_defs)
  have p1: "{id' alice, userId \<lparr>socketId = js ''h2'', userId = js ''u2''\<rparr>} = {js ''u1'', js ''u2''}"
    by (simp add: alice_def)
  have p2: "{id' bob, userId \<lparr>socketId = js ''h1'', userId = js ''u1''\<rparr>} = {js ''u1'', js ''u2''}"
    by (auto simp: bob_def)
  have m1: "map conversation (messages (fst ?r1)) = [0]" by (simp add: chat_defs)
  have m2: "length (messages (fst ?r2)) = 2" by (simp add: chat_defs)
  note inst = sequential_one_conversation_per_pair [of "js ''u1''" "js ''u2''" verify_example]
  from inst [of "[Authenticate (js ''h1'') (js ''token-a''), Authenticate (js ''h2'') (js ''token-b'')]",
      THEN conjunct2, rule_format, OF conjI [OF u1 conjI [OF c1 conjI [OF s1 conjI [OF u2
        conjI [OF c2 conjI [OF s2 conjI [OF p1 p2]]]]]]]]
  have same: "conversation (last (messages (fst ?r2))) = conversation (last (messages (fst ?r1)))" .
  have "map conversation (messages (fst ?r2)) = [0, 0]"
    using same m1 m2 by (simp add: chat_defs)
  with inst [THEN conjunct1] show ?thesis by blast
qed

text \<open>
  C2. The claim: all sends between \<open>A\<close> and \<open>B\<close> resolve to one conversation, and at most
  one conversation ever exists for the pair. It holds while no two runs of the handler
  overlap (\<open>sequential_one_conversation_per_pair\<close>). But the handler is suspended between
  \<open>findOne\<close> (line 96) and \<open>create\<close> (line 101), and the next \<open>send_message\<close> event is
  handled meanwhile. Run: \<open>a@x.com\<close> sends \<open>one\<close> and then \<open>two\<close> to \<open>b@x.com\<close>, the second
  arriving before the first \<open>findOne\<close> has answered. Both runs find no conversation and
  both create one: two conversations with the participants \<open>u1\<close>, \<open>u2\<close> are stored, one
  message under each, and both messages are delivered.
\<close>

theorem overlapping_sends_store_two_conversations:
  "map participants (conversations (fst (interleaved_run verify_example
     [OnAuthenticate (js ''h1'') (js ''token-a''), OnAuthenticate (js ''h2'') (js ''token-b''),
      OnSendMessage (js ''h1'') (js ''b@x.com'') (js ''one''),
      OnSendMessage (js ''h1'') (js ''b@x.com'') (js ''two''),
      Resume 0 False, Resume 1 False,
      Resume 0 False, Resume 1 False,
      Resume 0 False, Resume 1 False,
      Resume 0 False, Resume 0 False])))
   = [[js ''u1'', js ''u2''], [js ''u1'', js ''u2'']]
  \<and> map conversation (messages (fst (interleaved_run verify_example
     [OnAuthenticate (js ''h1'') (js ''token-a''), OnAuthenticate (js ''h2'') (js ''token-b''),
      OnSendMessage (js ''h1'') (js ''b@x.com'') (js ''one''),
      OnSendMessage (js ''h1'') (js ''b@x.com'') (js ''two''),
      Resume 0 False, Resume 1 False,
      Resume 0 False, Resume 1 False,
      Resume 0 False, Resume 1 False,
      Resume 0 False, Resume 0 False]))) = [0, 1]
  \<and> snd (snd (interleaved_run verify_example
     [OnAuthenticate (js ''h1'') (js ''token-a''), OnAuthenticate (js ''h2'') (js ''token-b''),
      OnSendMessage (js ''h1'') (js ''b@x.com'') (js ''one''),
      OnSendMessage (js ''h1'') (js ''b@x.com'') (js ''two''),
      Resume 0 False, Resume 1 False,
      Resume 0 False, Resume 1 False,
      Resume 0 False, Resume 1 False,
      Resume 0 False, Resume 0 False]))
    = [Emit (js ''h1'') ''auth_success''
         (Obj [(''id'', Str (js ''u1'')), (''email'', Str (js ''a@x.com'')), (''role'', Str (js ''user''))]),
       Emit (js ''h2'') ''auth_success''
         (Obj [(''id'', Str (js ''u2'')), (''email'', Str (js ''b@x.com'')), (''role'', Str (js ''user''))]),
       Emit (js ''h2'') ''receive_message''
         (Obj [(''from'', Str (js ''a@x.com'')), (''content'', Str (js ''one''))]),
       Emit (js ''h2'') ''receive_message''
         (Obj [(''from'', Str (js ''a@x.com'')), (''content'', Str (js ''two''))])]"
  by (simp add: task_defs chat_defs)

subsection \<open>C3: a failing database call\<close>

text \<open>
  C3. The claim: when a persistence step fails, nothing reaches the recipient and the
  sender gets an explicit rejection. The first half holds: a rejected run emits nothing
  (\<open>send_message_rejected_silent\<close>) and \<open>receive_message\<close> is emitted only after the
  message and the conversation were saved (\<open>send_message_delivers_after_save\<close>). The
  second does not: no \<open>try\<close> surrounds the \<open>await\<close>s, so the handler's promise rejects and
  the sender is sent nothing. Run: \<open>a@x.com\<close> on \<open>h1\<close> and \<open>b@x.com\<close> on \<open>h2\<close> are
  authenticated, \<open>h1\<close> sends \<open>hi\<close> to \<open>b@x.com\<close>, and \<open>Conversation.findOne\<close> rejects.
\<close>

theorem persistence_failure_unreported:
  "send_message [FindOne]
     (chat_run verify_example
        [Authenticate (js ''h1'') (js ''token-a''), Authenticate (js ''h2'') (js ''token-b'')])
     (js ''h1'') (js ''b@x.com'') (js ''hi'')
   = (chat_run verify_example
        [Authenticate (js ''h1'') (js ''token-a''), Authenticate (js ''h2'') (js ''token-b'')],
      [], Rejected FindOne)"
  by (simp add: chat_defs)

subsection \<open>C4: a recipient that is not online\<close>

text \<open>
  C4, as stated, at a sender that never authenticated: the recipient has no entry, and
  the error the sender gets is the one of the first guard, not the one for an absent
  recipient.
\<close>

theorem unauthenticated_sender_to_absent_recipient:
  "connectedUsers chat_init (js ''ghost@x.com'') = None
   \<and> send_message [] chat_init (js ''h1'') (js ''ghost@x.com'') (js ''hi'')
       = (chat_init, [Emit (js ''h1'') ''error'' (Str (js ''You must authenticate first''))], Resolved)
   \<and> js ''You must authenticate first'' \<noteq> js ''Recipient not online''"
  by (simp add: chat_defs)

text \<open>
  C4, amended. A send by an authenticated sender to an email without an entry in
  \<open>connectedUsers\<close> emits \<open>error\<close> with \<open>Recipient not online\<close> to the sender and nothing
  else, resolves, and leaves the whole state (conversations and messages included) as it
  was, whatever the database would have done: the handler ends before its first
  \<open>await\<close>. A send by a socket that has not
  authenticated emits \<open>You must authenticate first\<close> instead, the state unchanged as well.
  In index.js, which has no authentication and no store, a send to an email that \<open>search\<close>
  does not find emits \<open>error_message\<close> to the sender only.
\<close>

theorem recipient_offline:
  "(user st sock = Some u \<and> connectedUsers st toEmail = None \<longrightarrow>
      send_message faults st sock toEmail body
        = (st, [Emit sock ''error'' (Str (js ''Recipient not online''))], Resolved)
      \<and> send_start st sock toEmail body
        = Inl [Emit sock ''error'' (Str (js ''Recipient not online''))])
   \<and> (user st sock = None \<longrightarrow>
      send_message faults st sock toEmail body
        = (st, [Emit sock ''error'' (Str (js ''You must authenticate first''))], Resolved))
   \<and> (Trie_search (trie ts) toEmail = None \<longrightarrow>
      send_message_trie ts sock toEmail body = [Emit sock ''error_message'' (not_found toEmail)])"
  by (simp add: send_message_def send_message_trie_def send_start_def)

theorem recipient_offline_witness:
  "user (chat_run verify_example [Authenticate (js ''h1'') (js ''token-a'')]) (js ''h1'') = Some alice
   \<and> connectedUsers (chat_run verify_example [Authenticate (js ''h1'') (js ''token-a'')])
        (js ''ghost@x.com'') = None
   \<and> send_message [] (chat_run verify_example [Authenticate (js ''h1'') (js ''token-a'')])
        (js ''h1'') (js ''ghost@x.com'') (js ''hi'')
       = (chat_run verify_example [Authenticate (js ''h1'') (js ''token-a'')],
          [Emit (js ''h1'') ''error'' (Str (js ''Recipient not online''))], Resolved)
   \<and> user chat_init (js ''h1'') = None
   \<and> send_message [] chat_init (js ''h1'') (js ''ghost@x.com'') (js ''hi'')
       = (chat_init, [Emit (js ''h1'') ''error'' (Str (js ''You must authenticate first''))], Resolved)
   \<and> Trie_search (trie (trie_run [EvRegister (js ''h1'') (js ''a@x.com'')])) (js ''ghost@x.com'') = None
   \<and> send_message_trie (trie_run [EvRegister (js ''h1'') (js ''a@x.com'')])
        (js ''h1'') (js ''ghost@x.com'') (js ''hi'')
       = [Emit (js ''h1'') ''error_message'' (not_found (js ''ghost@x.com''))]"
proof -
  let ?st = "chat_run verify_example [Authenticate (js ''h1'') (js ''token-a'')]"
  let ?ts = "trie_run [EvRegister (js ''h1'') (js ''a@x.com'')]"
  have a: "user ?st (js ''h1'') = Some alice" by (simp add: chat_defs)
  have b: "connectedUsers ?st (js ''ghost@x.com'') = None" by (simp add: chat_defs)
  have c: "user chat_init (js ''h1'') = None" by (simp add: chat_init_def)
  have d: "Trie_search (trie ?ts) (js ''ghost@x.com'') = None" by (simp add: trie_defs)
  from recipient_offline [of ?st "js ''h1''" alice "js ''ghost@x.com''" "[]" "js ''hi''" ?ts]
    recipient_offline [of chat_init "js ''h1''" alice "js ''ghost@x.com''" "[]" "js ''hi''" ?ts]
    a b c d
  show ?thesis by simp
qed

subsection \<open>C5: entries of a closed connection\<close>

text \<open>
  C5. The claim: when a connection closes, every directory entry bound to its handle is
  removed. In index.js the loop of the \<open>disconnect\<close> handler leaves (\<open>break\<close>) after the
  first entry of the socket: \<open>h1\<close> registers \<open>a@x.com\<close> and \<open>b@x.com\<close> and disconnects, and
  \<open>search\<close> still returns \<open>h1\<close> for \<open>b@x.com\<close>. In the authenticated server the handler
  deletes the entry of the last email the socket authenticated as only: \<open>h1\<close>
  authenticates as \<open>a@x.com\<close>, then as \<open>b@x.com\<close>, and disconnects, and \<open>a@x.com\<close> still
  points at \<open>h1\<close>.
\<close>

theorem disconnect_leaves_entries:
  "Trie_search
     (trie (trie_run
        [EvRegister (js ''h1'') (js ''a@x.com''), EvRegister (js ''h1'') (js ''b@x.com''),
         EvDisconnect (js ''h1'')]))
     (js ''b@x.com'') = Some (js ''h1'')
   \<and> connectedUsers
     (chat_run verify_example
        [Authenticate (js ''h1'') (js ''token-a''), Authenticate (js ''h1'') (js ''token-b''),
         Disconnect (js ''h1'')])
     (js ''a@x.com'') = Some \<lparr>socketId = js ''h1'', userId = js ''u1''\<rparr>"
  by (simp add: chat_defs trie_defs)

subsection \<open>C6: what the recipient receives\<close>




subsection \<open>C7: no entry without a verified credential\<close>

text \<open>
  C7, as stated, in index.js: the \<open>register\<close> handler verifies nothing, and after the one
  event \<open>register\<close> with \<open>a@x.com\<close> from \<open>h1\<close> the directory answers \<open>h1\<close> for that email.
\<close>

theorem trie_server_registers_unverified:
  "Trie_search (trie (trie_run [EvRegister (js ''h1'') (js ''a@x.com'')])) (js ''a@x.com'')
     = Some (js ''h1'')"
  by (simp add: trie_defs)

text \<open>
  C7, amended. In every state the authenticated server reaches (its handlers run one
  after the other, or overlapping), an entry of \<open>connectedUsers\<close> for an email \<open>e\<close>
  pointing at socket \<open>s\<close> with user id \<open>i\<close> comes from an earlier \<open>authenticate\<close> event on
  \<open>s\<close> whose token the verifier accepted with the email \<open>e\<close> and the id \<open>i\<close>. In index.js there is no verification: \<open>register\<close> binds the email it is
  given to the socket.
\<close>

theorem entries_are_verified:
  "(connectedUsers (chat_run verify evs) e = Some p \<longrightarrow>
     (\<exists>token d. Authenticate (socketId p) token \<in> set evs \<and> verify token = Some d
        \<and> email d = e \<and> id' d = userId p))
   \<and> (connectedUsers (fst (interleaved_run verify acts)) e = Some p \<longrightarrow>
     (\<exists>token d. OnAuthenticate (socketId p) token \<in> set acts \<and> verify token = Some d
        \<and> email d = e \<and> id' d = userId p))
   \<and> Trie_search (trie (register ts sock e')) e' = Some sock"
  using connectedUsers_verified [of verify evs e p]
    interleaved_connectedUsers_verified [of verify acts e p]
  by (simp add: register_def Trie_search_insert_same)

theorem entries_are_verified_witness:
  "connectedUsers
     (chat_run verify_example
        [Authenticate (js ''h0'') (js ''forged''), Authenticate (js ''h1'') (js ''token-a'')])
     (js ''a@x.com'') = Some \<lparr>socketId = js ''h1'', userId = js ''u1''\<rparr>
   \<and> (\<exists>token d. Authenticate (js ''h1'') token
          \<in> set [Authenticate (js ''h0'') (js ''forged''), Authenticate (js ''h1'') (js ''token-a'')]
        \<and> verify_example token = Some d \<and> email d = js ''a@x.com'' \<and> id' d = js ''u1'')
   \<and> connectedUsers
     (chat_run verify_example
        [Authenticate (js ''h0'') (js ''forged''), Authenticate (js ''h1'') (js ''token-a'')])
     (js ''forged'') = None"
proof -
  let ?evs = "[Authenticate (js ''h0'') (js ''forged''), Authenticate (js ''h1'') (js ''token-a'')]"
  have a: "connectedUsers (chat_run verify_example ?evs) (js ''a@x.com'')
      = Some \<lparr>socketId = js ''h1'', userId = js ''u1''\<rparr>"
    by (simp add: chat_defs)
  have b: "connectedUsers (chat_run verify_example ?evs) (js ''forged'') = None"
    by (simp add: chat_defs)
  from entries_are_verified [of verify_example ?evs "js ''a@x.com''"
      "\<lparr>socketId = js ''h1'', userId = js ''u1''\<rparr>", THEN conjunct1, rule_format, OF a] a b
  show ?thesis by simp
qed

subsection \<open>C8: bind and lookup\<close>

text \<open>
  C8. For every trie, email \<open>e\<close> and handle \<open>s\<close>: \<open>search(e)\<close> after \<open>insert(e, s)\<close> returns
  \<open>s\<close>; a later \<open>insert\<close> for the same \<open>e\<close> replaces the earlier handle; \<open>insert(e, s)\<close> changes
  the answer for no other email; and in a trie built from the empty one by any sequence of
  inserts, \<open>search\<close> answers as the list of binds read from its end does, so an email that
  was never bound (a proper prefix or a proper extension of a bound one included) gets
  \<open>null\<close>.
\<close>

theorem bind_lookup:
  "Trie_search (Trie_insert t e s) e = Some s
   \<and> Trie_search (Trie_insert (Trie_insert t e s1) e s2) e = Some s2
   \<and> (e' \<noteq> e \<longrightarrow> Trie_search (Trie_insert t e s) e' = Trie_search t e')
   \<and> Trie_search (foldl (\<lambda>t (e, sid). Trie_insert t e sid) new_Trie binds) e'
       = map_of (rev binds) e'
   \<and> (e' \<notin> fst ` set binds \<longrightarrow>
       Trie_search (foldl (\<lambda>t (e, sid). Trie_insert t e sid) new_Trie binds) e' = None)"
proof -
  have "e' \<notin> fst ` set binds \<Longrightarrow> map_of (rev binds) e' = None"
    by (simp add: map_of_eq_None_iff)
  then show ?thesis
    by (simp add: Trie_search_insert_same Trie_search_insert_other Trie_search_binds)
qed

theorem bind_lookup_witness:
  "Trie_search (Trie_insert new_Trie (js ''ab'') (js ''h1'')) (js ''ab'') = Some (js ''h1'')
   \<and> Trie_search (Trie_insert (Trie_insert new_Trie (js ''ab'') (js ''h1'')) (js ''ab'') (js ''h2''))
        (js ''ab'') = Some (js ''h2'')
   \<and> js ''a'' \<noteq> js ''ab''
   \<and> Trie_search (Trie_insert new_Trie (js ''ab'') (js ''h1'')) (js ''a'') = None
   \<and> js ''a'' \<notin> fst ` set [(js ''ab'', js ''h1''), (js ''abc'', js ''h2'')]
   \<and> Trie_search (foldl (\<lambda>t (e, sid). Trie_insert t e sid) new_Trie
          [(js ''ab'', js ''h1''), (js ''abc'', js ''h2'')]) (js ''a'') = None"
proof -
  have ne: "js ''a'' \<noteq> js ''ab''" by (simp add: js_def)
  have nb: "js ''a'' \<notin> fst ` set [(js ''ab'', js ''h1''), (js ''abc'', js ''h2'')]"
    by (simp add: js_def)
  have new: "Trie_search new_Trie (js ''a'') = None" by (simp add: trie_defs)
  from bind_lookup [of new_Trie "js ''ab''" "js ''h1''" "js ''h1''" "js ''h2''" "js ''a''"
      "[(js ''ab'', js ''h1''), (js ''abc'', js ''h2'')]"] ne nb new
  show ?thesis by simp
qed

subsection \<open>C9: removing one of two emails\<close>

text \<open>
  C9. The claim: for two distinct bound emails \<open>e1\<close> and \<open>e2\<close>, \<open>remove(e1)\<close> leaves the entry
  of \<open>e2\<close> and makes \<open>search(e1)\<close> return \<open>null\<close>. The first half holds for all strings
  (\<open>Trie_remove_frame\<close>), the second for the emails without a surrogate pair
  (\<open>Trie_remove_removes\<close>). With the email U+1F600 (one code point, two code units) bound
  to \<open>h1\<close> and \<open>b@x.com\<close> bound to \<open>h2\<close>, \<open>remove\<close> of the first looks for the child
  \<open>email[0]\<close>, finds none, and \<open>search\<close> still returns \<open>h1\<close>.
\<close>

theorem remove_misses_surrogate_pair:
  "Trie_search
     (Trie_remove
        (Trie_insert (Trie_insert new_Trie [0xD83D, 0xDE00] (js ''h1'')) (js ''b@x.com'') (js ''h2''))
        [0xD83D, 0xDE00])
     [0xD83D, 0xDE00] = Some (js ''h1'')
   \<and> Trie_search
     (Trie_remove
        (Trie_insert (Trie_insert new_Trie [0xD83D, 0xDE00] (js ''h1'')) (js ''b@x.com'') (js ''h2''))
        [0xD83D, 0xDE00])
     (js ''b@x.com'') = Some (js ''h2'')"
  by (simp add: trie_defs)

subsection \<open>C10: a message to oneself\<close>

text \<open>
  C10, as stated, at a sender whose first stored conversation is one with itself:
  \<open>a@x.com\<close> sends a note to itself (a conversation of \<open>u1\<close> with \<open>u1\<close> is stored, id 0),
  then \<open>hi\<close> to \<open>b@x.com\<close> (a conversation of \<open>u1\<close> with \<open>u2\<close>, id 1), then again to itself:
  the third message is stored under conversation 0, not under the one with \<open>u2\<close>.
\<close>

theorem self_send_prefers_earlier_self_conversation:
  "map participants (conversations (chat_run verify_example
     [Authenticate (js ''h1'') (js ''token-a''), Authenticate (js ''h2'') (js ''token-b''),
      SendMessage (js ''h1'') (js ''a@x.com'') (js ''note'') [],
      SendMessage (js ''h1'') (js ''b@x.com'') (js ''hi'') []]))
    = [[js ''u1'', js ''u1''], [js ''u1'', js ''u2'']]
   \<and> map c_id (conversations (chat_run verify_example
     [Authenticate (js ''h1'') (js ''token-a''), Authenticate (js ''h2'') (js ''token-b''),
      SendMessage (js ''h1'') (js ''a@x.com'') (js ''note'') [],
      SendMessage (js ''h1'') (js ''b@x.com'') (js ''hi'') []])) = [0, 1]
   \<and> map conversation (messages (chat_run verify_example
     [Authenticate (js ''h1'') (js ''token-a''), Authenticate (js ''h2'') (js ''token-b''),
      SendMessage (js ''h1'') (js ''a@x.com'') (js ''note'') [],
      SendMessage (js ''h1'') (js ''b@x.com'') (js ''hi'') [],
      SendMessage (js ''h1'') (js ''a@x.com'') (js ''again'') []])) = [0, 1, 0]"
  by (simp add: chat_defs)

text \<open>
  C10, amended. For a send whose recipient entry carries the sender's own user id, the
  query \<open>$all: [senderId, receiverId]\<close> matches every conversation that contains the
  sender. When the sender has a stored conversation, the first of them in the store is
  the one \<open>findOne\<close> returns: no conversation is created, and the message is stored under
  the id of that conversation, which is the one with another user whenever the sender's
  first stored conversation is such a one.
\<close>

theorem self_send_first_conversation:
  assumes "user st sock = Some u" and "connectedUsers st toEmail = Some r"
    and "userId r = id' u"
    and "find (\<lambda>c. id' u \<in> set (participants c)) (conversations st) = Some c"
    and "send_message faults st sock toEmail body = (st', out, Resolved)"
  shows "findOne_all [id' u, userId r] (conversations st) = Some c
    \<and> map stored (conversations st') = map stored (conversations st)
    \<and> messages st' = messages st @
        [\<lparr>m_id = length (messages st), conversation = c_id c, sender = id' u, content = body\<rparr>]"
proof -
  from assms(3,4) have f: "findOne_all [id' u, userId r] (conversations st) = Some c"
    by (simp add: findOne_all_def)
  from send_message_cases [OF assms(1,2,5)] obtain c1 st1 where
    foc: "find_or_create faults (id' u) (userId r) st = Inr (c1, st1)"
    and st': "st' = Conversation_save (c1\<lparr>lastMessage := Some (length (messages st1))\<rparr>)
             (st1\<lparr>messages := messages st1 @
                [\<lparr>m_id = length (messages st1), conversation = c_id c1, sender = id' u,
                  content = body\<rparr>]\<rparr>)"
    by blast
  from foc f have "c1 = c" "st1 = st" by (auto simp: find_or_create_def split: if_splits)
  with f show ?thesis by (simp add: st' stored_save) (simp add: Conversation_save_def)
qed

theorem self_send_first_conversation_witness:
  "map participants (conversations (chat_run verify_example
     [Authenticate (js ''h1'') (js ''token-a''), Authenticate (js ''h2'') (js ''token-b''),
      SendMessage (js ''h1'') (js ''b@x.com'') (js ''hi'') []])) = [[js ''u1'', js ''u2'']]
   \<and> map participants (conversations (chat_run verify_example
     [Authenticate (js ''h1'') (js ''token-a''), Authenticate (js ''h2'') (js ''token-b''),
      SendMessage (js ''h1'') (js ''b@x.com'') (js ''hi'') [],
      SendMessage (js ''h1'') (js ''a@x.com'') (js ''note'') []])) = [[js ''u1'', js ''u2'']]
   \<and> map conversation (messages (chat_run verify_example
     [Authenticate (js ''h1'') (js ''token-a''), Authenticate (js ''h2'') (js ''token-b''),
      SendMessage (js ''h1'') (js ''b@x.com'') (js ''hi'') [],
      SendMessage (js ''h1'') (js ''a@x.com'') (js ''note'') []])) = [0, 0]"
proof -
  let ?evs = "[Authenticate (js ''h1'') (js ''token-a''), Authenticate (js ''h2'') (js ''token-b''),
      SendMessage (js ''h1'') (js ''b@x.com'') (js ''hi'') []]"
  let ?st = "chat_run verify_example ?evs"
  let ?r = "send_message [] ?st (js ''h1'') (js ''a@x.com'') (js ''note'')"
  let ?c = "\<lparr>c_id = 0, participants = [js ''u1'', js ''u2''], lastMessage = Some 0\<rparr>"
  have u: "user ?st (js ''h1'') = Some alice" by (simp add: chat_defs)
  have c: "connectedUsers ?st (js ''a@x.com'') = Some \<lparr>socketId = js ''h1'', userId = js ''u1''\<rparr>"
    by (simp add: chat_defs)
  have self: "userId \<lparr>socketId = js ''h1'', userId = js ''u1''\<rparr> = id' alice"
    by (simp add: alice_def)
  have cs: "conversations ?st = [?c]" by (simp add: chat_defs)
  have ms: "map conversation (messages ?st) = [0]" by (simp add: chat_defs)
  have f: "find (\<lambda>c. id' alice \<in> set (participants c)) (conversations ?st) = Some ?c"
    by (simp add: cs) (simp add: alice_def)
  have s: "?r = (fst ?r, fst (snd ?r), Resolved)" by (simp add: chat_defs)
  have run: "chat_run verify_example (?evs @ [SendMessage (js ''h1'') (js ''a@x.com'') (js ''note'') []])
      = fst ?r" by (simp only: chat_run_snoc chat_step.simps)
  from self_send_first_conversation [OF u c self f s]
  have a: "map stored (conversations (fst ?r)) = map stored (conversations ?st)"
    and b: "messages (fst ?r) = messages ?st @
        [\<lparr>m_id = length (messages ?st), conversation = c_id ?c, sender = id' alice,
          content = js ''note''\<rparr>]" by blast+
  have "map participants (conversations (fst ?r)) = map snd (map stored (conversations (fst ?r)))"
    by (simp add: stored_def o_def)
  also have "\<dots> = map snd (map stored (conversations ?st))" by (simp only: a)
  also have "\<dots> = [[js ''u1'', js ''u2'']]" by (simp add: cs stored_def)
  finally have "map participants (conversations (fst ?r)) = [[js ''u1'', js ''u2'']]" .
  moreover have "map conversation (messages (fst ?r)) = [0, 0]"
    using ms by (simp add: b)
  ultimately have "map participants (conversations (fst ?r)) = [[js ''u1'', js ''u2'']]"
    and "map conversation (messages (fst ?r)) = [0, 0]" by blast+
  with run cs show ?thesis by simp
qed

end
